theory Spec2Isabelle
  imports Complex_Main "HOL-Library.Sublist" "HOL-Library.AList"
begin

section \<open>The CSRF audit plugin of w3af (plugins/audit/csrf.py)\<close>

text \<open>
  The plugin decides, for one recorded request and its response, whether the endpoint
  looks open to cross-site request forgery. The embedding follows the Python source
  method by method. Python exceptions are values of \<open>error\<close>: a method that can raise
  returns \<open>error + 'a\<close>, with \<open>Inl\<close> for the exception.
\<close>

datatype error =
    ValueError      \<comment> \<open>\<open>math.log(0)\<close>: "math domain error"\<close>
  | KeyError        \<comment> \<open>a dictionary read of a key that is absent\<close>
  | SendFailure     \<comment> \<open>whatever \<open>send_mutant\<close> raises when the exchange fails\<close>

subsection \<open>The entropy classifier: \<open>is_csrf_token\<close>\<close>

definition COMMON_CSRF_NAMES :: "string list" where
  "COMMON_CSRF_NAMES = [''csrf_token'', ''token'', ''csrf'']"

text \<open>
  The values are byte strings (Python 2 \<open>str\<close>); \<open>isdigit\<close>, \<open>islower\<close> and
  \<open>isupper\<close> on one byte are the C locale's classes.
\<close>

definition isdigit :: "char \<Rightarrow> bool" where
  "isdigit c = (48 \<le> (of_char c :: nat) \<and> (of_char c :: nat) \<le> 57)"

definition islower :: "char \<Rightarrow> bool" where
  "islower c = (97 \<le> (of_char c :: nat) \<and> (of_char c :: nat) \<le> 122)"

definition isupper :: "char \<Rightarrow> bool" where
  "isupper c = (65 \<le> (of_char c :: nat) \<and> (of_char c :: nat) \<le> 90)"

record flags =
  total_digit :: bool
  total_lower :: bool
  total_upper :: bool
  total_spaces :: bool

text \<open>The loop \<open>for i in value\<close>, with its four \<open>continue\<close> branches in order.\<close>

fun scan_chars :: "string \<Rightarrow> flags \<Rightarrow> flags" where
  "scan_chars [] f = f"
| "scan_chars (i # value) f =
     (if isdigit i then scan_chars value (f\<lparr>total_digit := True\<rparr>)
      else if islower i then scan_chars value (f\<lparr>total_lower := True\<rparr>)
      else if isupper i then scan_chars value (f\<lparr>total_upper := True\<rparr>)
      else if i = CHR '' '' then scan_chars value (f\<lparr>total_spaces := True\<rparr>)
      else scan_chars value f)"

text \<open>
  \<open>math.log\<close> raises \<open>ValueError\<close> at 0. The floats of the source are read as real
  numbers here; \<open>entropy_gap\<close> below shows that the exact value of the product is never
  within a tenth of the threshold 36, so rounding cannot change the comparison.
\<close>

definition py_log :: "nat \<Rightarrow> error + real" where
  "py_log n = (if n = 0 then Inl ValueError else Inr (ln (real n)))"

definition alphabet :: "flags \<Rightarrow> nat" where
  "alphabet f = of_bool (total_digit f) * 10 + of_bool (total_upper f) * 26
                + of_bool (total_lower f) * 26"

definition is_csrf_token :: "string \<Rightarrow> string \<Rightarrow> error + bool" where
  "is_csrf_token key value =
     (let min_length = (4::nat); min_entropy = (36::int) in
      if key \<in> set COMMON_CSRF_NAMES \<and> value \<noteq> [] then Inr True
      else if length value < min_length then Inr False
      else
        let f = scan_chars value
                  \<lparr>total_digit = False, total_lower = False,
                   total_upper = False, total_spaces = False\<rparr>
        in case py_log (alphabet f) of
             Inl e \<Rightarrow> Inl e
           | Inr l \<Rightarrow>
               let entropy = \<lfloor>l * (real (length value) / ln 2)\<rfloor> in
               if entropy \<ge> min_entropy
               then (if \<not> total_spaces f \<and> total_digit f then Inr True
                     else Inr False)
               else Inr False)"

subsection \<open>Requests, responses and the plugin's collaborators\<close>

text \<open>
  Only what the plugin reads of a request is kept. The data container \<open>get_dc()\<close> maps a
  parameter name to the list of its values; it is an association list in the order the
  container iterates, with one entry per name.
\<close>

record fuzzable_request =
  fr_method :: string                          \<comment> \<open>\<open>get_method()\<close>\<close>
  fr_url :: string                             \<comment> \<open>\<open>get_url()\<close>, as printed\<close>
  fr_domain :: string                          \<comment> \<open>\<open>get_url().get_domain()\<close>\<close>
  fr_has_query_string :: bool                  \<comment> \<open>\<open>get_uri().has_query_string()\<close>\<close>
  fr_dc :: "(string \<times> string list) list"      \<comment> \<open>\<open>get_dc()\<close>\<close>
  fr_referer :: string                         \<comment> \<open>\<open>get_referer()\<close>\<close>

record http_response =
  r_code :: int
  r_body :: string
  r_id :: nat

record cookie =
  c_domain :: string

datatype severity = HIGH | MEDIUM | LOW | INFORMATION

record vuln =
  v_name :: string
  v_desc :: string
  v_severity :: severity
  v_response_id :: nat
  v_plugin_name :: string
  v_freq :: fuzzable_request

text \<open>
  A \<open>HeadersMutant\<close> carries the copied request, the header it varies, the original
  value and the modified value. A mutant that \<open>create_mutants\<close> builds is kept as the
  mutated request it stands for.
\<close>

datatype mutant =
    HeadersMutant fuzzable_request string string string
  | Mutant fuzzable_request

text \<open>
  The plugin object: its two settings, and the collaborators it calls that are not part
  of this file. \<open>send_mutant\<close> takes the optional \<open>analyze\<close> keyword (\<open>None\<close> when the
  call leaves it out) and either returns a response or raises; a mutant determines its
  response.
\<close>

record plugin =
  strict_mode :: bool
  equal_limit :: real
  get_name :: string
  get_cookies :: "cookie list"
  send_mutant :: "mutant \<Rightarrow> bool option \<Rightarrow> error + http_response"
  relative_distance_boolean :: "string \<Rightarrow> string \<Rightarrow> real \<Rightarrow> bool"
  create_mutants :: "fuzzable_request \<Rightarrow> string list \<Rightarrow> bool \<Rightarrow> string list \<Rightarrow> mutant list"

definition init :: "plugin \<Rightarrow> plugin" where
  "init self = self\<lparr>strict_mode := False, equal_limit := 0.95\<rparr>"

subsection \<open>Effects\<close>

text \<open>
  What a run leaves behind: the mutants handed to \<open>send_mutant\<close>, the lines given to
  \<open>om.out.debug\<close>, and the vulnerabilities handed to \<open>kb_append_uniq\<close> with their
  location, each in order. \<open>w_calls\<close> lists the plugin's methods in the order they were
  entered. A method is a function from the world before to its result, or the exception
  it raised, and the world after.
\<close>

record world =
  w_calls :: "string list"
  w_sent :: "mutant list"
  w_debug :: "string list"
  w_kb :: "(string \<times> vuln) list"

type_synonym 'a action = "world \<Rightarrow> (error + 'a) \<times> world"

definition ret :: "'a \<Rightarrow> 'a action" where
  "ret x = (\<lambda>w. (Inr x, w))"

definition andthen :: "'a action \<Rightarrow> ('a \<Rightarrow> 'b action) \<Rightarrow> 'b action" where
  "andthen m k = (\<lambda>w. case m w of (Inl e, w') \<Rightarrow> (Inl e, w') | (Inr x, w') \<Rightarrow> k x w')"

definition enter :: "string \<Rightarrow> unit action" where
  "enter name = (\<lambda>w. (Inr (), w\<lparr>w_calls := w_calls w @ [name]\<rparr>))"

definition debug :: "string \<Rightarrow> unit action" where
  "debug line = (\<lambda>w. (Inr (), w\<lparr>w_debug := w_debug w @ [line]\<rparr>))"

definition send :: "plugin \<Rightarrow> mutant \<Rightarrow> bool option \<Rightarrow> http_response action" where
  "send self m analyze = (\<lambda>w. (send_mutant self m analyze, w\<lparr>w_sent := w_sent w @ [m]\<rparr>))"

definition kb_append_uniq :: "string \<Rightarrow> vuln \<Rightarrow> unit action" where
  "kb_append_uniq location v = (\<lambda>w. (Inr (), w\<lparr>w_kb := w_kb w @ [(location, v)]\<rparr>))"

subsection \<open>The methods of the plugin\<close>

definition is_resp_equal :: "plugin \<Rightarrow> http_response \<Rightarrow> http_response \<Rightarrow> bool" where
  "is_resp_equal self res1 res2 =
     (if r_code res1 \<noteq> r_code res2 then False
      else if \<not> relative_distance_boolean self (r_body res1) (r_body res2) (equal_limit self)
      then False
      else True)"

text \<open>
  The \<open>for\<close> loop with its \<open>else\<close> over the cookies: \<open>True\<close> when the loop is left by \<open>break\<close>.
  Python's \<open>a in b\<close> on strings holds when \<open>a\<close> is a contiguous part of \<open>b\<close>.
\<close>

fun cookie_loop :: "string \<Rightarrow> cookie list \<Rightarrow> bool" where
  "cookie_loop d [] = False"
| "cookie_loop d (c # cs) = (if sublist d (c_domain c) then True else cookie_loop d cs)"

definition is_suitable :: "plugin \<Rightarrow> fuzzable_request \<Rightarrow> bool action" where
  "is_suitable self freq =
     andthen (enter ''_is_suitable'') (\<lambda>_.
       if \<not> cookie_loop (fr_domain freq) (get_cookies self) then ret False
       else if fr_method freq = ''GET'' \<and> strict_mode self then ret False
       else if \<not> fr_has_query_string freq \<and> fr_dc freq = [] then ret False
       else andthen (debug (fr_url freq @ '' is suitable for CSRF attack'')) (\<lambda>_.
            ret True))"

definition is_origin_checked :: "plugin \<Rightarrow> fuzzable_request \<Rightarrow> http_response \<Rightarrow> bool action" where
  "is_origin_checked self freq orig_response =
     andthen (enter ''_is_origin_checked'') (\<lambda>_.
       let fake_ref = ''http://www.w3af.org/'';
           mutant = HeadersMutant freq ''Referer'' (fr_referer freq) fake_ref
       in andthen (send self mutant None) (\<lambda>mutant_response.
            if \<not> is_resp_equal self orig_response mutant_response then ret True
            else ret False))"

text \<open>
  The token dictionary maps a parameter name to a dictionary from value index to value.
  The inner loop of \<open>_find_csrf_token\<close> runs over \<open>enumerate(dc[param_name])\<close> and
  leaves at the first value the classifier accepts; an exception of the classifier
  leaves the whole method.
\<close>

type_synonym tokens = "(string \<times> (nat \<times> string) list) list"

fun scan_values ::
  "fuzzable_request \<Rightarrow> string \<Rightarrow> (nat \<times> string) list \<Rightarrow> tokens \<Rightarrow> tokens action" where
  "scan_values freq param_name [] result w = (Inr result, w)"
| "scan_values freq param_name ((element_index, element_value) # rest) result w =
     (case is_csrf_token param_name element_value of
        Inl e \<Rightarrow> (Inl e, w)
      | Inr True \<Rightarrow>
          (let result1 = (if param_name \<notin> fst ` set result
                          then AList.update param_name [] result else result)
           in case map_of result1 param_name of
                None \<Rightarrow> (Inl KeyError, w)
              | Some inner \<Rightarrow>
                  (let result2 = AList.update param_name
                                   (AList.update element_index element_value inner) result1
                   in andthen
                        (debug (''Found CSRF token '' @ element_value @ '' in parameter ''
                                @ param_name @ '' for URL '' @ fr_url freq @ ''.''))
                        (\<lambda>_. ret result2) w))
      | Inr False \<Rightarrow> scan_values freq param_name rest result w)"

fun scan_params ::
  "fuzzable_request \<Rightarrow> (string \<times> string list) list \<Rightarrow> tokens \<Rightarrow> tokens action" where
  "scan_params freq [] result w = (Inr result, w)"
| "scan_params freq ((param_name, vals) # dc) result w =
     (case scan_values freq param_name (enumerate 0 vals) result w of
        (Inl e, w') \<Rightarrow> (Inl e, w')
      | (Inr result', w') \<Rightarrow> scan_params freq dc result' w')"

definition find_csrf_token :: "fuzzable_request \<Rightarrow> tokens action" where
  "find_csrf_token freq =
     andthen (enter ''_find_csrf_token'') (\<lambda>_. scan_params freq (fr_dc freq) [])"

text \<open>The loop of \<open>_is_token_checked\<close> over the mutants.\<close>

fun send_all :: "plugin \<Rightarrow> http_response \<Rightarrow> mutant list \<Rightarrow> bool action" where
  "send_all self orig_response [] w = (Inr False, w)"
| "send_all self orig_response (mutant # mutants) w =
     (case send self mutant (Some False) w of
        (Inl e, w') \<Rightarrow> (Inl e, w')
      | (Inr mutant_response, w') \<Rightarrow>
          if \<not> is_resp_equal self orig_response mutant_response then (Inr True, w')
          else send_all self orig_response mutants w')"

definition is_token_checked ::
  "plugin \<Rightarrow> fuzzable_request \<Rightarrow> tokens \<Rightarrow> http_response \<Rightarrow> bool action" where
  "is_token_checked self freq token orig_response =
     andthen (enter ''_is_token_checked'') (\<lambda>_.
     andthen (debug (''Testing for validation of token in '' @ fr_url freq)) (\<lambda>_.
       let mutants = create_mutants self freq [''123''] False (map fst token)
       in send_all self orig_response mutants))"

definition from_fr ::
  "string \<Rightarrow> string \<Rightarrow> severity \<Rightarrow> nat \<Rightarrow> string \<Rightarrow> fuzzable_request \<Rightarrow> vuln" where
  "from_fr name desc sev response_id plugin_name freq =
     \<lparr>v_name = name, v_desc = desc, v_severity = sev, v_response_id = response_id,
      v_plugin_name = plugin_name, v_freq = freq\<rparr>"

definition audit :: "plugin \<Rightarrow> fuzzable_request \<Rightarrow> http_response \<Rightarrow> unit action" where
  "audit self freq orig_response =
     andthen (enter ''audit'') (\<lambda>_.
     andthen (is_suitable self freq) (\<lambda>suitable.
       if \<not> suitable then ret ()
       else
     andthen (is_origin_checked self freq orig_response) (\<lambda>checked.
       if checked
       then andthen (debug (''Origin for '' @ fr_url freq @ '' is checked'')) (\<lambda>_. ret ())
       else
     andthen (find_csrf_token freq) (\<lambda>tokens.
     andthen (if tokens \<noteq> [] then is_token_checked self freq tokens orig_response
              else ret False) (\<lambda>token_checked.
       if token_checked
       then andthen (debug (''Token for '' @ fr_url freq @ '' is exist and checked''))
              (\<lambda>_. ret ())
       else
         let msg = ''Cross Site Request Forgery has been found at: '' @ fr_url freq;
             v = from_fr ''CSRF vulnerability'' msg HIGH (r_id orig_response)
                   (get_name self) freq
         in kb_append_uniq ''csrf'' v)))))"

subsection \<open>The token map in the words of the specification\<close>

text \<open>
  Section 4.5 of the specification: for each parameter, scan its values in order; for
  the first value the classifier accepts, record the index and the value under the
  parameter's name and scan no further values of that parameter. \<open>first_accepted\<close> is
  that scan for one parameter and \<open>located_tokens\<close> the resulting map; an exception of
  the classifier before a value is accepted is the result of the scan.
\<close>

fun first_accepted :: "string \<Rightarrow> (nat \<times> string) list \<Rightarrow> error + (nat \<times> string) option" where
  "first_accepted param_name [] = Inr None"
| "first_accepted param_name ((element_index, element_value) # rest) =
     (case is_csrf_token param_name element_value of
        Inl e \<Rightarrow> Inl e
      | Inr True \<Rightarrow> Inr (Some (element_index, element_value))
      | Inr False \<Rightarrow> first_accepted param_name rest)"

fun located_tokens :: "(string \<times> string list) list \<Rightarrow> error + tokens" where
  "located_tokens [] = Inr []"
| "located_tokens ((param_name, vals) # dc) =
     (case first_accepted param_name (enumerate 0 vals) of
        Inl e \<Rightarrow> Inl e
      | Inr hit \<Rightarrow>
          (case located_tokens dc of
             Inl e \<Rightarrow> Inl e
           | Inr ts \<Rightarrow>
               Inr ((case hit of None \<Rightarrow> [] | Some iv \<Rightarrow> [(param_name, [iv])]) @ ts)))"

subsection \<open>The mutants of the token validator\<close>

text \<open>
  Modelled from the spec: \<open>create_mutants\<close> (core.data.fuzzer.fuzzer) is not among the
  sources; \<open>_is_token_checked\<close> calls it with the request, the list of sentinel strings,
  the \<open>append\<close> flag and the names of the token-bearing parameters. Section 4.6: for
  each token-bearing parameter, construct a mutated request replacing that parameter's
  flagged value with the fixed sentinel, leaving all other parameters and values
  unchanged, independently per flagged parameter. The flagged value of a named parameter
  is the one section 4.5 flags: the first of its values that the classifier accepts.
\<close>

definition set_value :: "fuzzable_request \<Rightarrow> string \<Rightarrow> nat \<Rightarrow> string \<Rightarrow> fuzzable_request" where
  "set_value freq param_name element_index s =
     freq\<lparr>fr_dc := map (\<lambda>(q, vals). if q = param_name then (q, vals[element_index := s])
                                    else (q, vals)) (fr_dc freq)\<rparr>"

definition create_mutants_spec ::
  "fuzzable_request \<Rightarrow> string list \<Rightarrow> bool \<Rightarrow> string list \<Rightarrow> mutant list" where
  "create_mutants_spec freq mutant_str_list do_append fuzzable_param_list =
     concat (map (\<lambda>param_name.
       case map_of (fr_dc freq) param_name of
         None \<Rightarrow> []
       | Some vals \<Rightarrow>
           (case first_accepted param_name (enumerate 0 vals) of
              Inr (Some (i, v)) \<Rightarrow>
                map (\<lambda>s. Mutant (set_value freq param_name i (if do_append then v @ s else s)))
                    mutant_str_list
            | _ \<Rightarrow> [])) fuzzable_param_list)"

text \<open>
  The mutated requests that section 4.6 asks for, read off a token map: one for each
  recorded index of each token-bearing parameter, with the sentinel \<open>123\<close> in its place.
\<close>

definition token_mutations :: "fuzzable_request \<Rightarrow> tokens \<Rightarrow> fuzzable_request list" where
  "token_mutations freq token =
     concat (map (\<lambda>(param_name, d). map (\<lambda>(i, v). set_value freq param_name i ''123'') d)
                 token)"

subsection \<open>Example requests and servers\<close>

text \<open>
  A request to \<open>example.com\<close> with a token in its parameters, a session cookie for
  \<open>.example.com\<close>, and five servers: one that answers every probe like the original
  request, one that rejects a foreign Referer, one that rejects a changed token, one
  that cannot be reached, and one that is lost after the Referer probe. The example
  plugin compares bodies for equality.
\<close>

definition example_request :: fuzzable_request where
  "example_request =
     \<lparr>fr_method = ''POST'', fr_url = ''http://example.com/transfer'',
      fr_domain = ''example.com'', fr_has_query_string = True,
      fr_dc = [(''token'', [''abc12345XYZ'']), (''amount'', [''100''])],
      fr_referer = ''http://example.com/form''\<rparr>"

definition example_response :: http_response where
  "example_response = \<lparr>r_code = 200, r_body = ''done'', r_id = 7\<rparr>"

definition forbidden_response :: http_response where
  "forbidden_response = \<lparr>r_code = 403, r_body = ''forbidden'', r_id = 8\<rparr>"

definition example_plugin :: "(mutant \<Rightarrow> bool option \<Rightarrow> error + http_response) \<Rightarrow> plugin" where
  "example_plugin server =
     init \<lparr>strict_mode = True, equal_limit = 0, get_name = ''csrf'',
           get_cookies = [\<lparr>c_domain = ''.example.com''\<rparr>],
           send_mutant = server,
           relative_distance_boolean = (\<lambda>a b limit. a = b),
           create_mutants = create_mutants_spec\<rparr>"

definition ignoring_server :: "mutant \<Rightarrow> bool option \<Rightarrow> error + http_response" where
  "ignoring_server m analyze = Inr example_response"

definition referer_checking_server :: "mutant \<Rightarrow> bool option \<Rightarrow> error + http_response" where
  "referer_checking_server m analyze =
     (case m of HeadersMutant f var original modified \<Rightarrow> Inr forbidden_response
              | Mutant f \<Rightarrow> Inr example_response)"

definition token_checking_server :: "mutant \<Rightarrow> bool option \<Rightarrow> error + http_response" where
  "token_checking_server m analyze =
     (case m of HeadersMutant f var original modified \<Rightarrow> Inr example_response
              | Mutant f \<Rightarrow> Inr forbidden_response)"

definition unreachable_server :: "mutant \<Rightarrow> bool option \<Rightarrow> error + http_response" where
  "unreachable_server m analyze = Inl SendFailure"

definition token_path_down_server :: "mutant \<Rightarrow> bool option \<Rightarrow> error + http_response" where
  "token_path_down_server m analyze =
     (case m of HeadersMutant f var original modified \<Rightarrow> Inr example_response
              | Mutant f \<Rightarrow> Inl SendFailure)"

definition empty_world :: world where
  "empty_world = \<lparr>w_calls = [], w_sent = [], w_debug = [], w_kb = []\<rparr>"

section \<open>Properties of the classifier\<close>

lemma scan_chars_digit:
  "total_digit (scan_chars v f) = (total_digit f \<or> (\<exists>c \<in> set v. isdigit c))"
  by (induction v arbitrary: f) auto

lemma scan_chars_lower:
  "total_lower (scan_chars v f) = (total_lower f \<or> (\<exists>c \<in> set v. \<not> isdigit c \<and> islower c))"
  by (induction v arbitrary: f) auto

lemma scan_chars_upper:
  "total_upper (scan_chars v f) =
     (total_upper f \<or> (\<exists>c \<in> set v. \<not> isdigit c \<and> \<not> islower c \<and> isupper c))"
  by (induction v arbitrary: f) auto

lemma space_is_no_letter:
  "\<not> isdigit CHR '' ''" "\<not> islower CHR '' ''" "\<not> isupper CHR '' ''"
  by (simp_all add: isdigit_def islower_def isupper_def)

lemma scan_chars_spaces:
  "total_spaces (scan_chars v f) = (total_spaces f \<or> CHR '' '' \<in> set v)"
  by (induction v arbitrary: f) (auto simp: space_is_no_letter)

subsection \<open>The entropy comparison in integers\<close>

text \<open>
  \<open>floor (log(total) * (len / log(2))) >= 36\<close> holds exactly when \<open>total ^ len\<close> is
  at least \<open>2 ^ 36\<close>.
\<close>

lemma ln_pow_le:
  assumes "0 < t"
  shows "(real a * ln 2 \<le> real b * ln (real t)) = ((2::nat) ^ a \<le> t ^ b)"
proof -
  have t0: "0 < real t" using assms by simp
  have a: "ln ((2::real) ^ a) = real a * ln 2"
    using ln_realpow [of 2 a] by simp
  have b: "ln (real t ^ b) = real b * ln (real t)"
    using t0 ln_realpow [of "real t" b] by simp
  have "(real a * ln 2 \<le> real b * ln (real t)) = (ln ((2::real) ^ a) \<le> ln (real t ^ b))"
    by (simp only: a b)
  also have "\<dots> = ((2::real) ^ a \<le> real t ^ b)"
    using t0 by (intro ln_le_cancel_iff) simp_all
  also have "\<dots> = (real ((2::nat) ^ a) \<le> real (t ^ b))"
    by simp
  also have "\<dots> = ((2::nat) ^ a \<le> t ^ b)"
    by (rule of_nat_le_iff)
  finally show ?thesis .
qed

lemma ln_pow_ge:
  assumes "0 < t"
  shows "(real b * ln (real t) \<le> real a * ln 2) = (t ^ b \<le> (2::nat) ^ a)"
proof -
  have t0: "0 < real t" using assms by simp
  have a: "ln ((2::real) ^ a) = real a * ln 2"
    using ln_realpow [of 2 a] by simp
  have b: "ln (real t ^ b) = real b * ln (real t)"
    using t0 ln_realpow [of "real t" b] by simp
  have "(real b * ln (real t) \<le> real a * ln 2) = (ln (real t ^ b) \<le> ln ((2::real) ^ a))"
    by (simp only: a b)
  also have "\<dots> = (real t ^ b \<le> (2::real) ^ a)"
    using t0 by (intro ln_le_cancel_iff) simp_all
  also have "\<dots> = (real (t ^ b) \<le> real ((2::nat) ^ a))"
    by simp
  also have "\<dots> = (t ^ b \<le> (2::nat) ^ a)"
    by (rule of_nat_le_iff)
  finally show ?thesis .
qed

lemma entropy_threshold:
  assumes "0 < t"
  shows "(36 \<le> \<lfloor>ln (real t) * (real n / ln 2)\<rfloor>) = ((2::nat) ^ 36 \<le> t ^ n)"
proof -
  have l2: "0 < ln (2::real)" by simp
  have "(36 \<le> \<lfloor>ln (real t) * (real n / ln 2)\<rfloor>) = (36 \<le> ln (real t) * (real n / ln 2))"
    by (simp add: le_floor_iff)
  also have "\<dots> = (real 36 * ln 2 \<le> real n * ln (real t))"
    using l2 by (simp add: pos_le_divide_eq mult.commute)
  also have "\<dots> = ((2::nat) ^ 36 \<le> t ^ n)"
    by (rule ln_pow_le [OF assms])
  finally show ?thesis .
qed

text \<open>
  The exact product \<open>ln total * (len / ln 2)\<close> stays away from the threshold: for each
  alphabet size the code can compute it is at most 35.9 or at least 36.1.
\<close>

lemma gap_below:
  assumes "0 < t" "t ^ (10 * n) \<le> (2::nat) ^ 359"
  shows "ln (real t) * (real n / ln 2) \<le> 359 / 10"
proof -
  have l2: "0 < ln (2::real)" by simp
  from assms have "real (10 * n) * ln (real t) \<le> real 359 * ln 2"
    by (simp only: ln_pow_ge)
  then show ?thesis using l2 by (simp add: field_simps)
qed

lemma gap_above:
  assumes "0 < t" "(2::nat) ^ 361 \<le> t ^ (10 * n)"
  shows "361 / 10 \<le> ln (real t) * (real n / ln 2)"
proof -
  have l2: "0 < ln (2::real)" by simp
  from assms have "real 361 * ln 2 \<le> real (10 * n) * ln (real t)"
    by (simp only: ln_pow_le)
  then show ?thesis using l2 by (simp add: field_simps)
qed

lemma pow_split:
  fixes t :: nat
  assumes "1 \<le> t" "t ^ (10 * k) \<le> 2 ^ 359" "2 ^ 361 \<le> t ^ (10 * Suc k)"
  shows "t ^ (10 * n) \<le> 2 ^ 359 \<or> 2 ^ 361 \<le> t ^ (10 * n)"
proof (cases "n \<le> k")
  case True
  then have "t ^ (10 * n) \<le> t ^ (10 * k)" using assms(1) by (intro power_increasing) simp_all
  then show ?thesis using assms(2) by linarith
next
  case False
  then have "Suc k \<le> n" by simp
  then have "t ^ (10 * Suc k) \<le> t ^ (10 * n)" using assms(1) by (intro power_increasing) simp_all
  then show ?thesis using assms(3) by linarith
qed

lemma alphabet_values: "alphabet f \<in> {0, 10, 26, 36, 52, 62}"
  by (simp add: alphabet_def of_bool_def)

lemma entropy_gap:
  assumes "alphabet f \<noteq> 0"
  shows "ln (real (alphabet f)) * (real n / ln 2) \<le> 359 / 10
       \<or> 361 / 10 \<le> ln (real (alphabet f)) * (real n / ln 2)"
proof -
  define t where "t = alphabet f"
  have pos: "0 < t" using assms by (simp add: t_def)
  have "t \<in> {10, 26, 36, 52, 62}" using alphabet_values [of f] assms by (simp add: t_def)
  then have "t ^ (10 * n) \<le> 2 ^ 359 \<or> 2 ^ 361 \<le> t ^ (10 * n)"
  proof (elim insertE)
    assume "t = 10" then show ?thesis using pow_split [of 10 10 n] by simp
  next
    assume "t = 26" then show ?thesis using pow_split [of 26 7 n] by simp
  next
    assume "t = 36" then show ?thesis using pow_split [of 36 6 n] by simp
  next
    assume "t = 52" then show ?thesis using pow_split [of 52 6 n] by simp
  next
    assume "t = 62" then show ?thesis using pow_split [of 62 6 n] by simp
  qed simp
  then show ?thesis using gap_below [OF pos, of n] gap_above [OF pos, of n]
    unfolding t_def by blast
qed

text \<open>
  An equation for \<open>is_csrf_token\<close> without logarithms; it is the code equation, so that
  the classifier can be evaluated on concrete strings.
\<close>

lemma is_csrf_token_code [code]:
  "is_csrf_token key value =
     (if key \<in> set COMMON_CSRF_NAMES \<and> value \<noteq> [] then Inr True
      else if length value < 4 then Inr False
      else
        let f = scan_chars value
                  \<lparr>total_digit = False, total_lower = False,
                   total_upper = False, total_spaces = False\<rparr>
        in if alphabet f = 0 then Inl ValueError
           else Inr ((2::nat) ^ 36 \<le> alphabet f ^ length value
                     \<and> \<not> total_spaces f \<and> total_digit f))"
proof -
  define f where "f = scan_chars value \<lparr>total_digit = False, total_lower = False,
                   total_upper = False, total_spaces = False\<rparr>"
  show ?thesis
  proof (cases "alphabet f = 0")
    case True
    then show ?thesis
      by (simp add: is_csrf_token_def Let_def py_log_def f_def [symmetric])
  next
    case False
    then have "0 < alphabet f" by simp
    from entropy_threshold [OF this, of "length value"] False show ?thesis
      by (simp add: is_csrf_token_def Let_def py_log_def f_def [symmetric] del: power_numeral)
  qed
qed

lemma alphabet_zero_iff:
  "alphabet (scan_chars v \<lparr>total_digit = False, total_lower = False,
                   total_upper = False, total_spaces = False\<rparr>) = 0
   \<longleftrightarrow> (\<forall>c \<in> set v. \<not> isdigit c \<and> \<not> islower c \<and> \<not> isupper c)"
  by (auto simp: alphabet_def scan_chars_digit scan_chars_lower scan_chars_upper)

text \<open>
  With no digit and no letter in a value of four or more characters, the alphabet is 0
  and \<open>math.log\<close> raises.
\<close>

lemma is_csrf_token_faults:
  assumes "key \<notin> set COMMON_CSRF_NAMES" and "4 \<le> length value"
    and "\<forall>c \<in> set value. \<not> isdigit c \<and> \<not> islower c \<and> \<not> isupper c"
  shows "is_csrf_token key value = Inl ValueError"
  using assms by (simp add: is_csrf_token_code alphabet_zero_iff Let_def)

text \<open>
  Claim C5. For every parameter name in the list of well-known names (\<open>csrf_token\<close>,
  \<open>token\<close>, \<open>csrf\<close>) and every non-empty value, \<open>is_csrf_token\<close> returns true,
  whatever the length, the characters or the entropy of the value.
\<close>

theorem name_shortcut:
  assumes "key \<in> set COMMON_CSRF_NAMES" and "value \<noteq> []"
  shows "is_csrf_token key value = Inr True"
  using assms by (simp add: is_csrf_token_def)

theorem name_shortcut_witness:
  "is_csrf_token ''csrf_token'' ''x'' = Inr True"
  using name_shortcut [of "''csrf_token''" "''x''"]
  by (simp add: COMMON_CSRF_NAMES_def)

text \<open>
  Claim C6 says that a value with a space is never a token, for every parameter name.
  The name shortcut comes first in the code: under the name \<open>token\<close> the value
  \<open>Token 12345 ABCDE\<close> is accepted.
\<close>

theorem space_rule_counterexample:
  "CHR '' '' \<in> set ''Token 12345 ABCDE''
   \<and> is_csrf_token ''token'' ''Token 12345 ABCDE'' = Inr True"
  by (simp add: is_csrf_token_def COMMON_CSRF_NAMES_def)

text \<open>
  Claim C6, amended. For every parameter name outside the well-known names and every
  value that contains a space, \<open>is_csrf_token\<close> does not return true; it returns false
  when the value is shorter than four characters or has at least one digit or letter.
  (A value of four or more characters without any digit or letter is the case of
  \<open>is_csrf_token_faults\<close>.)
\<close>

theorem space_rule_unnamed:
  assumes "key \<notin> set COMMON_CSRF_NAMES" and "CHR '' '' \<in> set value"
  shows "is_csrf_token key value \<noteq> Inr True
       \<and> (length value < 4 \<or> (\<exists>c \<in> set value. isdigit c \<or> islower c \<or> isupper c)
            \<longrightarrow> is_csrf_token key value = Inr False)"
proof -
  define f where "f = scan_chars value \<lparr>total_digit = False, total_lower = False,
                   total_upper = False, total_spaces = False\<rparr>"
  have s: "total_spaces f" using assms(2) by (simp add: f_def scan_chars_spaces)
  have z: "alphabet f = 0 \<longleftrightarrow> (\<forall>c \<in> set value. \<not> isdigit c \<and> \<not> islower c \<and> \<not> isupper c)"
    unfolding f_def by (rule alphabet_zero_iff)
  have eq: "is_csrf_token key value =
     (if length value < 4 then Inr False
      else if alphabet f = 0 then Inl ValueError else Inr False)"
    using assms(1) s by (simp add: is_csrf_token_code f_def [symmetric] Let_def del: power_numeral)
  show ?thesis unfolding eq using z by auto
qed

theorem space_rule_unnamed_witness:
  "is_csrf_token ''foo'' ''Token 12345 ABCDE'' = Inr False"
  using space_rule_unnamed [of "''foo''" "''Token 12345 ABCDE''"]
  by (simp add: COMMON_CSRF_NAMES_def isdigit_def)

text \<open>
  Claim C10. For every parameter name outside the well-known names and every value of
  at least eleven characters, all of them digits, \<open>is_csrf_token\<close> returns true: the
  alphabet is 10, \<open>10 ^ 11\<close> exceeds \<open>2 ^ 36\<close>, the value has a digit and no space.
\<close>

theorem long_digit_string_is_token:
  assumes "key \<notin> set COMMON_CSRF_NAMES" and "11 \<le> length value"
    and "\<forall>c \<in> set value. isdigit c"
  shows "is_csrf_token key value = Inr True"
proof -
  define f where "f = scan_chars value \<lparr>total_digit = False, total_lower = False,
                   total_upper = False, total_spaces = False\<rparr>"
  from assms(2) have ne: "value \<noteq> []" by auto
  then obtain c where "c \<in> set value" by (cases "value") auto
  with assms(3) have d: "total_digit f" by (auto simp: f_def scan_chars_digit)
  from assms(3) have l: "\<not> total_lower f" and u: "\<not> total_upper f"
    by (auto simp: f_def scan_chars_lower scan_chars_upper)
  from assms(3) have s: "\<not> total_spaces f"
    using space_is_no_letter(1) by (auto simp: f_def scan_chars_spaces)
  from d l u have a: "alphabet f = 10" by (simp add: alphabet_def)
  have "(2::nat) ^ 36 \<le> 10 ^ 11" by simp
  also have "\<dots> \<le> 10 ^ length value" using assms(2) by (intro power_increasing) simp_all
  finally have p: "(2::nat) ^ 36 \<le> 10 ^ length value" .
  have "is_csrf_token key value = Inr ((2::nat) ^ 36 \<le> 10 ^ length value)"
    using a d s assms(1,2)
    by (simp add: is_csrf_token_code f_def [symmetric] Let_def del: power_numeral)
  with p show ?thesis by (simp only: )
qed

theorem long_digit_string_is_token_witness:
  "is_csrf_token ''foo'' ''12345678901'' = Inr True"
  using long_digit_string_is_token [of "''foo''" "''12345678901''"]
  by (simp add: COMMON_CSRF_NAMES_def isdigit_def)

text \<open>
  Claim C1 asks for the answer false on a value of four or more characters without digit
  or letter, under a name outside the well-known names. The code computes \<open>log(0)\<close>
  there, which raises: on \<open>----\<close> the classifier ends with \<open>ValueError\<close>.
\<close>

theorem zero_alphabet_faults: "is_csrf_token ''foo'' ''----'' = Inl ValueError"
  using is_csrf_token_faults [of "''foo''" "''----''"]
  by (simp add: COMMON_CSRF_NAMES_def isdigit_def islower_def isupper_def)

section \<open>The methods and their effects\<close>

subsection \<open>The token locator\<close>

lemma update_fresh: "k \<notin> fst ` set al \<Longrightarrow> AList.update k v al = al @ [(k, v)]"
  by (induction al) auto

lemma scan_values_run:
  "scan_values freq p xs result w =
     (case first_accepted p xs of
        Inl e \<Rightarrow> (Inl e, w)
      | Inr None \<Rightarrow> (Inr result, w)
      | Inr (Some (i, v)) \<Rightarrow>
          (Inr (AList.update p
                  (AList.update i v (case map_of result p of None \<Rightarrow> [] | Some d \<Rightarrow> d))
                  result),
           w\<lparr>w_debug := w_debug w @
               [(''Found CSRF token '' @ v @ '' in parameter '' @ p
                  @ '' for URL '' @ fr_url freq @ ''.'')]\<rparr>))"
proof (induction xs)
  case Nil
  show ?case by simp
next
  case (Cons x xs)
  obtain i v where x: "x = (i, v)" by (cases x)
  show ?case
  proof (cases "is_csrf_token p v")
    case (Inl e)
    then show ?thesis by (simp add: x)
  next
    case (Inr b)
    show ?thesis
    proof (cases b)
      case False
      with Inr Cons show ?thesis by (simp add: x)
    next
      case True
      show ?thesis
      proof (cases "p \<in> fst ` set result")
        case True
        then obtain d where "map_of result p = Some d"
          by (metis domD dom_map_of_conv_image_fst)
        with Inr \<open>b\<close> True show ?thesis
          by (simp add: x andthen_def debug_def ret_def)
      next
        case False
        then have "map_of result p = None"
          by (simp add: map_of_eq_None_iff)
        with Inr \<open>b\<close> False show ?thesis
          by (simp add: x andthen_def debug_def ret_def update_conv')
      qed
    qed
  qed
qed

lemma scan_values_fst:
  "fst (scan_values freq p xs result w) = fst (scan_values freq p xs result w')"
  by (simp add: scan_values_run split: sum.splits option.splits prod.splits)

lemma scan_values_frame:
  "w_kb (snd (scan_values freq p xs result w)) = w_kb w
   \<and> w_calls (snd (scan_values freq p xs result w)) = w_calls w
   \<and> w_sent (snd (scan_values freq p xs result w)) = w_sent w"
  by (simp add: scan_values_run split: sum.splits option.splits prod.splits)

lemma scan_params_fst:
  "fst (scan_params freq dc result w) = fst (scan_params freq dc result w')"
proof (induction dc arbitrary: result w w')
  case Nil
  show ?case by simp
next
  case (Cons a dc)
  obtain p vals where a: "a = (p, vals)" by (cases a)
  obtain r1 w1 where s1: "scan_values freq p (enumerate 0 vals) result w = (r1, w1)"
    by (cases "scan_values freq p (enumerate 0 vals) result w")
  obtain r2 w2 where s2: "scan_values freq p (enumerate 0 vals) result w' = (r2, w2)"
    by (cases "scan_values freq p (enumerate 0 vals) result w'")
  have eq: "r2 = r1"
    using scan_values_fst [of freq p "enumerate 0 vals" result w w'] s1 s2 by simp
  show ?case
  proof (cases r1)
    case (Inl e)
    then show ?thesis using s1 s2 eq by (simp add: a)
  next
    case (Inr res)
    then show ?thesis using s1 s2 eq Cons.IH [of res w1 w2] by (simp add: a)
  qed
qed

lemma scan_params_frame:
  "w_kb (snd (scan_params freq dc result w)) = w_kb w
   \<and> w_calls (snd (scan_params freq dc result w)) = w_calls w
   \<and> w_sent (snd (scan_params freq dc result w)) = w_sent w"
proof (induction dc arbitrary: result w)
  case Nil
  show ?case by simp
next
  case (Cons a dc)
  obtain p vals where a: "a = (p, vals)" by (cases a)
  obtain r1 w1 where s1: "scan_values freq p (enumerate 0 vals) result w = (r1, w1)"
    by (cases "scan_values freq p (enumerate 0 vals) result w")
  have f: "w_kb w1 = w_kb w \<and> w_calls w1 = w_calls w \<and> w_sent w1 = w_sent w"
    using scan_values_frame [of freq p "enumerate 0 vals" result w] s1 by simp
  show ?case
  proof (cases r1)
    case (Inl e)
    then show ?thesis using s1 f by (simp add: a)
  next
    case (Inr res)
    then show ?thesis using s1 f Cons.IH [of res w1] by (simp add: a)
  qed
qed

lemma scan_params_located:
  assumes "distinct (map fst dc)" and "fst ` set result \<inter> fst ` set dc = {}"
  shows "fst (scan_params freq dc result w) =
           (case located_tokens dc of Inl e \<Rightarrow> Inl e | Inr ts \<Rightarrow> Inr (result @ ts))"
  using assms
proof (induction dc arbitrary: result w)
  case Nil
  show ?case by simp
next
  case (Cons a dc)
  obtain p vals where a: "a = (p, vals)" by (cases a)
  from Cons.prems have fresh: "p \<notin> fst ` set result" and d: "distinct (map fst dc)"
    and pdc: "p \<notin> fst ` set dc" and disj: "fst ` set result \<inter> fst ` set dc = {}"
    by (auto simp: a)
  from fresh have none: "map_of result p = None" by (simp add: map_of_eq_None_iff)
  show ?case
  proof (cases "first_accepted p (enumerate 0 vals)")
    case (Inl e)
    then show ?thesis by (simp add: a scan_values_run)
  next
    case (Inr hit)
    show ?thesis
    proof (cases hit)
      case None
      with Inr Cons.IH [OF d disj] show ?thesis
        by (simp add: a scan_values_run split: sum.splits)
    next
      case (Some iv)
      obtain i v where iv: "iv = (i, v)" by (cases iv)
      let ?r = "result @ [(p, [(i, v)])]"
      have disj': "fst ` set ?r \<inter> fst ` set dc = {}" using disj pdc by auto
      from Inr Some iv none fresh Cons.IH [OF d disj'] show ?thesis
        by (simp add: a scan_values_run update_fresh split: sum.splits)
    qed
  qed
qed

lemma find_csrf_token_located:
  assumes "distinct (map fst (fr_dc freq))"
  shows "fst (find_csrf_token freq w) = located_tokens (fr_dc freq)"
  using scan_params_located [OF assms, of "[]" freq]
  by (simp add: find_csrf_token_def andthen_def enter_def split: sum.splits)

subsection \<open>Suitability\<close>

lemma cookie_loop_iff:
  "cookie_loop d cs \<longleftrightarrow> (\<exists>c \<in> set cs. sublist d (c_domain c))"
  by (induction cs) auto

lemma is_suitable_run:
  "is_suitable self freq w =
     (if cookie_loop (fr_domain freq) (get_cookies self)
         \<and> \<not> (fr_method freq = ''GET'' \<and> strict_mode self)
         \<and> \<not> (\<not> fr_has_query_string freq \<and> fr_dc freq = [])
      then (Inr True, w\<lparr>w_calls := w_calls w @ [''_is_suitable''],
                        w_debug := w_debug w @ [fr_url freq @ '' is suitable for CSRF attack'']\<rparr>)
      else (Inr False, w\<lparr>w_calls := w_calls w @ [''_is_suitable'']\<rparr>))"
  by (simp add: is_suitable_def andthen_def enter_def debug_def ret_def)

lemma is_suitable_fst:
  "fst (is_suitable self freq w) = fst (is_suitable self freq w')"
  by (simp add: is_suitable_run)

subsection \<open>The origin probe\<close>

lemma is_origin_checked_run:
  "is_origin_checked self freq orig w =
     (case send_mutant self
             (HeadersMutant freq ''Referer'' (fr_referer freq) ''http://www.w3af.org/'') None of
        Inl e \<Rightarrow> Inl e
      | Inr r \<Rightarrow> Inr (\<not> is_resp_equal self orig r),
      w\<lparr>w_calls := w_calls w @ [''_is_origin_checked''],
        w_sent := w_sent w @
          [HeadersMutant freq ''Referer'' (fr_referer freq) ''http://www.w3af.org/'']\<rparr>)"
  by (simp add: is_origin_checked_def andthen_def enter_def send_def ret_def Let_def
      split: sum.splits)

subsection \<open>The locator inside a run\<close>

lemma find_csrf_token_fst:
  "fst (find_csrf_token freq w) = fst (find_csrf_token freq w')"
  using scan_params_fst [of freq "fr_dc freq" "[]"]
  by (simp add: find_csrf_token_def andthen_def enter_def)

lemma find_csrf_token_frame:
  "w_kb (snd (find_csrf_token freq w)) = w_kb w
   \<and> w_calls (snd (find_csrf_token freq w)) = w_calls w @ [''_find_csrf_token'']
   \<and> w_sent (snd (find_csrf_token freq w)) = w_sent w"
  using scan_params_frame [of freq "fr_dc freq" "[]" "w\<lparr>w_calls := w_calls w @ [''_find_csrf_token'']\<rparr>"]
  by (simp add: find_csrf_token_def andthen_def enter_def)

subsection \<open>The token probes\<close>

lemma send_all_fst:
  "fst (send_all self orig ms w) = fst (send_all self orig ms w')"
  by (induction ms arbitrary: w w') (auto simp: send_def split: sum.splits)

lemma send_all_kb: "w_kb (snd (send_all self orig ms w)) = w_kb w"
  by (induction ms arbitrary: w) (auto simp: send_def split: sum.splits)

lemma send_all_answered:
  assumes "\<forall>m \<in> set ms. \<exists>r. send_mutant self m (Some False) = Inr r"
  shows "fst (send_all self orig ms w) =
           Inr (\<exists>m \<in> set ms. \<exists>r. send_mutant self m (Some False) = Inr r
                                  \<and> \<not> is_resp_equal self orig r)"
  using assms
proof (induction ms arbitrary: w)
  case Nil
  show ?case by simp
next
  case (Cons m ms)
  then obtain r where r: "send_mutant self m (Some False) = Inr r" by auto
  show ?case
  proof (cases "is_resp_equal self orig r")
    case True
    with r Cons show ?thesis by (simp add: send_def)
  next
    case False
    with r show ?thesis by (auto simp: send_def)
  qed
qed

lemma send_all_failure:
  assumes "\<forall>m \<in> set ms. \<exists>r. send_mutant self m (Some False) = Inr r \<and> is_resp_equal self orig r"
    and "send_mutant self m (Some False) = Inl e"
  shows "fst (send_all self orig (ms @ m # ms') w) = Inl e"
  using assms by (induction ms arbitrary: w) (auto simp: send_def)

lemma is_token_checked_fst:
  "fst (is_token_checked self freq token orig w) =
     fst (send_all self orig (create_mutants self freq [''123''] False (map fst token)) w')"
  using send_all_fst
  by (simp add: is_token_checked_def andthen_def enter_def debug_def Let_def)

lemma is_token_checked_kb:
  "w_kb (snd (is_token_checked self freq token orig w)) = w_kb w"
  by (simp add: is_token_checked_def andthen_def enter_def debug_def Let_def send_all_kb)

subsection \<open>The first accepted value\<close>

lemma first_accepted_sound:
  assumes "first_accepted p (enumerate n vals) = Inr (Some (i, v))"
  shows "n \<le> i \<and> i < n + length vals \<and> vals ! (i - n) = v
       \<and> is_csrf_token p v = Inr True
       \<and> (\<forall>j < i - n. is_csrf_token p (vals ! j) = Inr False)"
  using assms
proof (induction vals arbitrary: n)
  case Nil
  then show ?case by simp
next
  case (Cons x xs)
  show ?case
  proof (cases "is_csrf_token p x")
    case (Inl e)
    with Cons.prems show ?thesis by simp
  next
    case (Inr b)
    show ?thesis
    proof (cases b)
      case True
      with Inr Cons.prems show ?thesis by simp
    next
      case False
      with Inr Cons.prems have "first_accepted p (enumerate (Suc n) xs) = Inr (Some (i, v))"
        by simp
      from Cons.IH [OF this] have ih: "Suc n \<le> i" "i < Suc n + length xs"
        "xs ! (i - Suc n) = v" "is_csrf_token p v = Inr True"
        "\<forall>j < i - Suc n. is_csrf_token p (xs ! j) = Inr False" by auto
      from ih(1) have split: "i - n = Suc (i - Suc n)" by simp
      have "\<forall>j < i - n. is_csrf_token p ((x # xs) ! j) = Inr False"
      proof (intro allI impI)
        fix j assume "j < i - n"
        then show "is_csrf_token p ((x # xs) ! j) = Inr False"
          using ih(5) Inr False split by (cases j) auto
      qed
      with ih split show ?thesis by simp
    qed
  qed
qed

lemma first_accepted_none:
  assumes "first_accepted p (enumerate n vals) = Inr None"
  shows "\<forall>v \<in> set vals. is_csrf_token p v = Inr False"
  using assms
proof (induction vals arbitrary: n)
  case Nil
  then show ?case by simp
next
  case (Cons x xs)
  then show ?case
    by (cases "is_csrf_token p x") (auto split: bool.splits if_splits)
qed

lemma first_accepted_returns:
  assumes "\<forall>v \<in> set vals. \<exists>b. is_csrf_token p v = Inr b"
  shows "\<exists>h. first_accepted p (enumerate n vals) = Inr h"
  using assms
proof (induction vals arbitrary: n)
  case Nil
  then show ?case by simp
next
  case (Cons x xs)
  then obtain b where "is_csrf_token p x = Inr b" by auto
  with Cons show ?case by (cases b) auto
qed

lemma located_tokens_entries:
  assumes "located_tokens dc = Inr ts" and "(p, d) \<in> set ts"
  shows "\<exists>vals i v. (p, vals) \<in> set dc \<and> d = [(i, v)]
           \<and> first_accepted p (enumerate 0 vals) = Inr (Some (i, v))"
  using assms
proof (induction dc arbitrary: ts)
  case Nil
  then show ?case by simp
next
  case (Cons a dc)
  obtain q vals where a: "a = (q, vals)" by (cases a)
  from Cons.prems(1) obtain hit ts' where
    hit: "first_accepted q (enumerate 0 vals) = Inr hit" and
    ts': "located_tokens dc = Inr ts'" and
    ts: "ts = (case hit of None \<Rightarrow> [] | Some iv \<Rightarrow> [(q, [iv])]) @ ts'"
    by (auto simp: a split: sum.splits)
  show ?case
  proof (cases "(p, d) \<in> set ts'")
    case True
    from Cons.IH [OF ts' True] show ?thesis by (auto simp: a)
  next
    case False
    with Cons.prems(2) ts obtain iv where "hit = Some iv" "p = q" "d = [iv]"
      by (cases hit) auto
    with hit show ?thesis by (cases iv) (auto simp: a)
  qed
qed

subsection \<open>The suitability filter\<close>

text \<open>
  Claim C2, amended. The suitability filter accepts a request only if the domain of the
  request's URL occurs (as a contiguous part) in the domain of at least one cookie: for
  every request and cookie list in which the URL's domain occurs in no cookie's domain,
  \<open>_is_suitable\<close> returns false.
\<close>

theorem unsuitable_without_cookie:
  assumes "\<forall>c \<in> set (get_cookies self). \<not> sublist (fr_domain freq) (c_domain c)"
  shows "fst (is_suitable self freq w) = Inr False"
  using assms by (simp add: is_suitable_run cookie_loop_iff)

theorem unsuitable_without_cookie_witness:
  "fst (is_suitable (example_plugin ignoring_server)
          (example_request\<lparr>fr_domain := ''www.example.com''\<rparr>) empty_world) = Inr False"
  using unsuitable_without_cookie
    [of "example_plugin ignoring_server" "example_request\<lparr>fr_domain := ''www.example.com''\<rparr>"
        empty_world]
  by (simp add: example_plugin_def init_def example_request_def sublist_code)

text \<open>
  Claim C2 reads the test the other way round (the cookie's domain inside the URL's
  domain). The code evaluates \<open>freq.get_url().get_domain() in cookie.domain\<close>: with
  the cookie domain \<open>.example.com\<close> and the URL domain \<open>example.com\<close> no cookie
  domain is a part or a suffix of the URL's domain, and the request is suitable.
\<close>

theorem cookie_domain_counterexample:
  "get_cookies (example_plugin ignoring_server) = [\<lparr>c_domain = ''.example.com''\<rparr>]
   \<and> fr_domain example_request = ''example.com''
   \<and> \<not> sublist ''.example.com'' ''example.com''
   \<and> \<not> suffix ''.example.com'' ''example.com''
   \<and> fst (is_suitable (example_plugin ignoring_server) example_request empty_world) = Inr True"
  by (simp add: example_plugin_def init_def example_request_def sublist_code suffix_to_prefix
      is_suitable_run)

lemma is_suitable_kb: "w_kb (snd (is_suitable self freq w)) = w_kb w"
  by (simp add: is_suitable_run)

lemma is_origin_checked_fst:
  "fst (is_origin_checked self freq orig w) =
     (case send_mutant self
             (HeadersMutant freq ''Referer'' (fr_referer freq) ''http://www.w3af.org/'') None of
        Inl e \<Rightarrow> Inl e
      | Inr r \<Rightarrow> Inr (\<not> is_resp_equal self orig r))"
  by (simp add: is_origin_checked_run)

lemma is_origin_checked_kb: "w_kb (snd (is_origin_checked self freq orig w)) = w_kb w"
  by (simp add: is_origin_checked_run)

subsection \<open>The orchestrator\<close>


text \<open>
  The example request of section 8 of the specification: a cookie for the domain, a
  parameter \<open>token=abc12345XYZ\<close>, and a server that answers every probe as it
  answered the original request.
\<close>

lemma example_tokens:
  "fst (find_csrf_token example_request w) = Inr [(''token'', [(0, ''abc12345XYZ'')])]"
  by (simp add: find_csrf_token_located example_request_def is_csrf_token_def
      COMMON_CSRF_NAMES_def)

lemma example_mutants:
  "create_mutants_spec example_request [''123''] False [''token''] =
     [Mutant (set_value example_request ''token'' 0 ''123'')]"
  by (simp add: create_mutants_spec_def example_request_def is_csrf_token_def
      COMMON_CSRF_NAMES_def)

lemma example_suitable:
  "fst (is_suitable (example_plugin server) example_request w) = Inr True"
  by (simp add: is_suitable_run example_plugin_def init_def example_request_def sublist_code)


text \<open>
  Claim C4. For every suitable request whose Referer probe is answered by a response
  that differs from the original under the comparator, \<open>audit\<close> returns without handing
  anything to the knowledge base, and neither \<open>_find_csrf_token\<close> nor
  \<open>_is_token_checked\<close> is entered: the methods entered are \<open>audit\<close>, \<open>_is_suitable\<close>
  and \<open>_is_origin_checked\<close>, and the Referer mutant is the only mutant sent.
\<close>

theorem audit_origin_checked:
  assumes suit: "fst (is_suitable self freq w) = Inr True"
    and ref: "send_mutant self
               (HeadersMutant freq ''Referer'' (fr_referer freq) ''http://www.w3af.org/'') None
              = Inr r"
    and diff: "\<not> is_resp_equal self orig r"
  shows "fst (audit self freq orig w) = Inr ()
       \<and> w_kb (snd (audit self freq orig w)) = w_kb w
       \<and> w_calls (snd (audit self freq orig w)) =
           w_calls w @ [''audit'', ''_is_suitable'', ''_is_origin_checked'']
       \<and> w_sent (snd (audit self freq orig w)) =
           w_sent w @
             [HeadersMutant freq ''Referer'' (fr_referer freq) ''http://www.w3af.org/'']"
proof -
  have c: "cookie_loop (fr_domain freq) (get_cookies self)
         \<and> \<not> (fr_method freq = ''GET'' \<and> strict_mode self)
         \<and> \<not> (\<not> fr_has_query_string freq \<and> fr_dc freq = [])"
    using suit by (simp add: is_suitable_run split: if_splits)
  show ?thesis
    using ref diff
    by (simp add: audit_def andthen_def enter_def is_suitable_run c is_origin_checked_run
        debug_def ret_def)
qed

theorem audit_origin_checked_witness:
  "fst (audit (example_plugin referer_checking_server) example_request example_response
          empty_world) = Inr ()
   \<and> w_kb (snd (audit (example_plugin referer_checking_server) example_request
                   example_response empty_world)) = []
   \<and> w_calls (snd (audit (example_plugin referer_checking_server) example_request
                      example_response empty_world)) =
       [''audit'', ''_is_suitable'', ''_is_origin_checked'']
   \<and> w_sent (snd (audit (example_plugin referer_checking_server) example_request
                     example_response empty_world)) =
       [HeadersMutant example_request ''Referer'' ''http://example.com/form''
          ''http://www.w3af.org/'']"
proof -
  let ?self = "example_plugin referer_checking_server"
  have ref: "send_mutant ?self (HeadersMutant example_request ''Referer''
               (fr_referer example_request) ''http://www.w3af.org/'') None
             = Inr forbidden_response"
    by (simp add: example_plugin_def init_def referer_checking_server_def)
  have diff: "\<not> is_resp_equal ?self example_response forbidden_response"
    by (simp add: is_resp_equal_def example_response_def forbidden_response_def)
  from audit_origin_checked [where w = empty_world, OF example_suitable ref diff]
  show ?thesis
    by (simp add: empty_world_def example_request_def)
qed

text \<open>
  Claim C9, amended. When the send of a probe raises (the Referer probe, or a token probe
  reached after probes that were answered like the original), \<open>audit\<close> hands nothing to
  the knowledge base and the exception leaves \<open>audit\<close>: the plugin has no handler, the
  failure goes to the caller.
\<close>

theorem send_failure_propagates:
  assumes suit: "fst (is_suitable self freq w) = Inr True"
    and fail: "send_mutant self
                 (HeadersMutant freq ''Referer'' (fr_referer freq) ''http://www.w3af.org/'') None
               = Inl e
             \<or> (\<exists>r tokens ms m ms'.
                  send_mutant self
                    (HeadersMutant freq ''Referer'' (fr_referer freq) ''http://www.w3af.org/'')
                    None = Inr r
                  \<and> is_resp_equal self orig r
                  \<and> fst (find_csrf_token freq w) = Inr tokens \<and> tokens \<noteq> []
                  \<and> create_mutants self freq [''123''] False (map fst tokens) = ms @ m # ms'
                  \<and> (\<forall>x \<in> set ms. \<exists>r'. send_mutant self x (Some False) = Inr r'
                                         \<and> is_resp_equal self orig r')
                  \<and> send_mutant self m (Some False) = Inl e)"
  shows "fst (audit self freq orig w) = Inl e
       \<and> w_kb (snd (audit self freq orig w)) = w_kb w"
proof -
  have s: "\<And>wa. fst (is_suitable self freq wa) = Inr True"
    using suit is_suitable_fst by metis
  from fail show ?thesis
  proof
    assume "send_mutant self
              (HeadersMutant freq ''Referer'' (fr_referer freq) ''http://www.w3af.org/'') None
            = Inl e"
    then have o: "\<And>wa. fst (is_origin_checked self freq orig wa) = Inl e"
      by (simp add: is_origin_checked_fst)
    show ?thesis
      by (simp add: audit_def enter_def s andthen_def case_prod_unfold o
          is_suitable_kb is_origin_checked_kb)
  next
    assume "\<exists>r tokens ms m ms'.
              send_mutant self
                (HeadersMutant freq ''Referer'' (fr_referer freq) ''http://www.w3af.org/'')
                None = Inr r
              \<and> is_resp_equal self orig r
              \<and> fst (find_csrf_token freq w) = Inr tokens \<and> tokens \<noteq> []
              \<and> create_mutants self freq [''123''] False (map fst tokens) = ms @ m # ms'
              \<and> (\<forall>x \<in> set ms. \<exists>r'. send_mutant self x (Some False) = Inr r'
                                     \<and> is_resp_equal self orig r')
              \<and> send_mutant self m (Some False) = Inl e"
    then obtain r tokens ms m ms' where
      ref: "send_mutant self
              (HeadersMutant freq ''Referer'' (fr_referer freq) ''http://www.w3af.org/'')
              None = Inr r"
      and same: "is_resp_equal self orig r"
      and loc: "fst (find_csrf_token freq w) = Inr tokens" and ne: "tokens \<noteq> []"
      and ms: "create_mutants self freq [''123''] False (map fst tokens) = ms @ m # ms'"
      and before: "\<forall>x \<in> set ms. \<exists>r'. send_mutant self x (Some False) = Inr r'
                                     \<and> is_resp_equal self orig r'"
      and down: "send_mutant self m (Some False) = Inl e"
      by blast
    have o: "\<And>wa. fst (is_origin_checked self freq orig wa) = Inr False"
      using ref same by (simp add: is_origin_checked_fst)
    have f: "\<And>wa. fst (find_csrf_token freq wa) = Inr tokens"
      using loc find_csrf_token_fst by metis
    have t: "\<And>wa. fst (is_token_checked self freq tokens orig wa) = Inl e"
      using send_all_failure [OF before down]
      by (simp add: is_token_checked_fst [of self freq tokens orig _ w] ms)
    show ?thesis
      using find_csrf_token_frame ne
      by (simp add: audit_def enter_def s andthen_def case_prod_unfold o f t
          is_suitable_kb is_origin_checked_kb is_token_checked_kb)
  qed
qed

text \<open>
  Claim C9 says that a failed probe is treated as inconclusive and does not end the
  analysis with a failure. With a server that cannot be reached, \<open>audit\<close> ends with the
  exception of \<open>send_mutant\<close>.
\<close>

theorem send_failure_counterexample:
  "fst (audit (example_plugin unreachable_server) example_request example_response
          empty_world) = Inl SendFailure"
  using example_suitable [of unreachable_server]
  by (simp add: audit_def andthen_def enter_def case_prod_unfold is_origin_checked_fst
      example_plugin_def init_def unreachable_server_def)

text \<open>
  Claim C7 says that for every request the locator returns the map of first accepted
  values, empty when the classifier accepts none. A request with the parameter
  \<open>q=----\<close> has no accepted value, and the locator ends with the \<open>ValueError\<close> of the
  classifier (the defect of claim C1) instead of returning the empty map.
\<close>

theorem locator_faults:
  "fst (find_csrf_token (freq\<lparr>fr_dc := [(''q'', [''----''])]\<rparr>) w) = Inl ValueError"
  using is_csrf_token_faults [of "''q''" "''----''"]
  by (simp add: find_csrf_token_located COMMON_CSRF_NAMES_def isdigit_def islower_def
      isupper_def)

subsection \<open>The token validator\<close>

text \<open>
  A mutated request differs from the request in one value of one parameter.
\<close>

lemma set_value_frame:
  "fr_method (set_value freq p i s) = fr_method freq"
  "fr_url (set_value freq p i s) = fr_url freq"
  "fr_domain (set_value freq p i s) = fr_domain freq"
  "fr_has_query_string (set_value freq p i s) = fr_has_query_string freq"
  "fr_referer (set_value freq p i s) = fr_referer freq"
  "map fst (fr_dc (set_value freq p i s)) = map fst (fr_dc freq)"
  by (simp_all add: set_value_def case_prod_unfold comp_def)

lemma set_value_lookup:
  "map_of (fr_dc (set_value freq p i s)) q =
     (if q = p then map_option (\<lambda>vals. vals[i := s]) (map_of (fr_dc freq) p)
      else map_of (fr_dc freq) q)"
proof -
  have "map_of (map (\<lambda>(k, vals). if k = p then (k, vals[i := s]) else (k, vals)) dc) q =
     (if q = p then map_option (\<lambda>vals. vals[i := s]) (map_of dc p) else map_of dc q)" for dc
    by (induction dc) auto
  then show ?thesis by (simp add: set_value_def)
qed

lemma create_mutants_spec_located:
  assumes dist: "distinct (map fst (fr_dc freq))"
    and loc: "located_tokens (fr_dc freq) = Inr ts"
  shows "create_mutants_spec freq [''123''] False (map fst ts) =
           map Mutant (token_mutations freq ts)"
    and "length (token_mutations freq ts) = length ts"
proof -
  let ?F = "\<lambda>param_name.
       case map_of (fr_dc freq) param_name of
         None \<Rightarrow> []
       | Some vals \<Rightarrow>
           (case first_accepted param_name (enumerate 0 vals) of
              Inr (Some (i, v)) \<Rightarrow>
                map (\<lambda>s. Mutant (set_value freq param_name i (if False then v @ s else s)))
                    [''123'']
            | _ \<Rightarrow> [])"
  let ?H = "\<lambda>(param_name, d). map (\<lambda>(i, v). set_value freq param_name i ''123'') d"
  have point: "?F (fst x) = map Mutant (?H x) \<and> length (?H x) = 1" if "x \<in> set ts" for x
  proof -
    obtain p d where x: "x = (p, d)" by (cases x)
    from located_tokens_entries [OF loc] that x obtain vals i v where
      e: "(p, vals) \<in> set (fr_dc freq)" "d = [(i, v)]"
         "first_accepted p (enumerate 0 vals) = Inr (Some (i, v))"
      by blast
    from dist e(1) have "map_of (fr_dc freq) p = Some vals" by simp
    with e show ?thesis by (simp add: x)
  qed
  have "create_mutants_spec freq [''123''] False (map fst ts) = concat (map (\<lambda>x. ?F (fst x)) ts)"
    by (simp add: create_mutants_spec_def comp_def)
  also have "\<dots> = concat (map (\<lambda>x. map Mutant (?H x)) ts)"
    using point by (intro arg_cong [where f = concat] map_cong) auto
  also have "\<dots> = map Mutant (token_mutations freq ts)"
    by (simp add: token_mutations_def map_concat comp_def)
  finally show "create_mutants_spec freq [''123''] False (map fst ts) =
           map Mutant (token_mutations freq ts)" .
  have "length (token_mutations freq ts) = sum_list (map (\<lambda>x. length (?H x)) ts)"
    by (simp add: token_mutations_def length_concat comp_def)
  also have "\<dots> = sum_list (map (\<lambda>x. 1) ts)"
    using point by (intro arg_cong [where f = sum_list] map_cong) auto
  also have "\<dots> = length ts" by (induction ts) auto
  finally show "length (token_mutations freq ts) = length ts" .
qed

text \<open>
  Claim C8. With \<open>create_mutants\<close> as the specification describes it and the token map
  the locator found, the validator builds one mutated request per token-bearing
  parameter, the flagged value replaced by \<open>123\<close> and everything else as in the request
  (\<open>set_value_frame\<close>, \<open>set_value_lookup\<close>); when every mutant is answered, it returns
  true if and only if the response to at least one of them differs from the original
  under the comparator, and so false if every response equals the original.
\<close>

theorem token_validator:
  assumes cm: "create_mutants self = create_mutants_spec"
    and dist: "distinct (map fst (fr_dc freq))"
    and loc: "fst (find_csrf_token freq w) = Inr tokens"
    and answered: "\<forall>m \<in> set (token_mutations freq tokens).
                     \<exists>r. send_mutant self (Mutant m) (Some False) = Inr r"
  shows "create_mutants self freq [''123''] False (map fst tokens) =
           map Mutant (token_mutations freq tokens)
       \<and> length (token_mutations freq tokens) = length tokens
       \<and> fst (is_token_checked self freq tokens orig w) =
           Inr (\<exists>m \<in> set (token_mutations freq tokens).
                  \<exists>r. send_mutant self (Mutant m) (Some False) = Inr r
                      \<and> \<not> is_resp_equal self orig r)"
proof -
  from loc dist have l: "located_tokens (fr_dc freq) = Inr tokens"
    by (simp add: find_csrf_token_located)
  note built = create_mutants_spec_located [OF dist l]
  have ms: "create_mutants self freq [''123''] False (map fst tokens) =
              map Mutant (token_mutations freq tokens)"
    using built(1) by (simp add: cm)
  have ans: "\<forall>m \<in> set (map Mutant (token_mutations freq tokens)).
               \<exists>r. send_mutant self m (Some False) = Inr r"
    using answered by auto
  have "fst (is_token_checked self freq tokens orig w) =
          fst (send_all self orig (map Mutant (token_mutations freq tokens)) w)"
    by (simp add: is_token_checked_fst [of self freq tokens orig w w] ms)
  also have "\<dots> = Inr (\<exists>m \<in> set (map Mutant (token_mutations freq tokens)).
                        \<exists>r. send_mutant self m (Some False) = Inr r
                            \<and> \<not> is_resp_equal self orig r)"
    by (rule send_all_answered [OF ans])
  finally show ?thesis using ms built(2) by simp
qed

theorem token_validator_witness:
  "create_mutants (example_plugin token_checking_server) example_request [''123''] False
     [''token''] =
     [Mutant (example_request\<lparr>fr_dc := [(''token'', [''123'']), (''amount'', [''100''])]\<rparr>)]
   \<and> fst (is_token_checked (example_plugin token_checking_server) example_request
            [(''token'', [(0, ''abc12345XYZ'')])] example_response empty_world) = Inr True"
proof -
  let ?self = "example_plugin token_checking_server"
  have cm: "create_mutants ?self = create_mutants_spec"
    by (simp add: example_plugin_def init_def)
  have dist: "distinct (map fst (fr_dc example_request))"
    by (simp add: example_request_def)
  have answered: "\<forall>m \<in> set (token_mutations example_request [(''token'', [(0, ''abc12345XYZ'')])]).
                     \<exists>r. send_mutant ?self (Mutant m) (Some False) = Inr r"
    by (simp add: example_plugin_def init_def token_checking_server_def)
  from token_validator [where w = empty_world and orig = example_response,
      OF cm dist example_tokens answered]
  show ?thesis
    by (simp add: token_mutations_def set_value_def example_request_def
        example_plugin_def init_def token_checking_server_def is_resp_equal_def
        example_response_def forbidden_response_def)
qed

theorem send_failure_propagates_witness:
  "fst (audit (example_plugin token_path_down_server) example_request example_response
          empty_world) = Inl SendFailure
   \<and> w_kb (snd (audit (example_plugin token_path_down_server) example_request
                   example_response empty_world)) = []"
proof -
  let ?self = "example_plugin token_path_down_server"
  let ?ref = "HeadersMutant example_request ''Referer'' (fr_referer example_request)
                ''http://www.w3af.org/''"
  have ref: "send_mutant ?self ?ref None = Inr example_response"
    by (simp add: example_plugin_def init_def token_path_down_server_def)
  have same: "is_resp_equal ?self example_response example_response"
    by (simp add: is_resp_equal_def example_plugin_def init_def)
  have ms: "create_mutants ?self example_request [''123''] False
              (map fst [(''token'', [(0::nat, ''abc12345XYZ'')])]) =
            [] @ Mutant (set_value example_request ''token'' 0 ''123'') # []"
    by (simp add: example_plugin_def init_def create_mutants_spec_def example_request_def
        is_csrf_token_def COMMON_CSRF_NAMES_def)
  have down: "send_mutant ?self (Mutant (set_value example_request ''token'' 0 ''123''))
                (Some False) = Inl SendFailure"
    by (simp add: example_plugin_def init_def token_path_down_server_def)
  have fail: "send_mutant ?self ?ref None = Inl SendFailure
     \<or> (\<exists>r tokens ms m ms'.
          send_mutant ?self ?ref None = Inr r
          \<and> is_resp_equal ?self example_response r
          \<and> fst (find_csrf_token example_request empty_world) = Inr tokens \<and> tokens \<noteq> []
          \<and> create_mutants ?self example_request [''123''] False (map fst tokens) = ms @ m # ms'
          \<and> (\<forall>x \<in> set ms. \<exists>r'. send_mutant ?self x (Some False) = Inr r'
                                 \<and> is_resp_equal ?self example_response r')
          \<and> send_mutant ?self m (Some False) = Inl SendFailure)"
    using ref same example_tokens [of empty_world] ms down
    by (intro disjI2 exI [of _ example_response]
        exI [of _ "[(''token'', [(0::nat, ''abc12345XYZ'')])]"] exI [of _ "[]"]
        exI [of _ "Mutant (set_value example_request ''token'' 0 ''123'')"] exI [of _ "[]"])
      simp
  from send_failure_propagates [where w = empty_world, OF example_suitable fail]
  show ?thesis by (simp add: empty_world_def)
qed

section \<open>Further properties\<close>

lemma located_tokens_lookup:
  assumes "distinct (map fst dc)" and "located_tokens dc = Inr ts" and "(p, vals) \<in> set dc"
  shows "\<exists>hit. first_accepted p (enumerate 0 vals) = Inr hit
             \<and> map_of ts p = map_option (\<lambda>iv. [iv]) hit"
  using assms
proof (induction dc arbitrary: ts)
  case Nil
  then show ?case by simp
next
  case (Cons a dc)
  obtain q qvals where a: "a = (q, qvals)" by (cases a)
  from Cons.prems(2) obtain hit ts' where
    hit: "first_accepted q (enumerate 0 qvals) = Inr hit" and
    ts': "located_tokens dc = Inr ts'" and
    ts: "ts = (case hit of None \<Rightarrow> [] | Some iv \<Rightarrow> [(q, [iv])]) @ ts'"
    by (auto simp: a split: sum.splits)
  from Cons.prems(1) have d: "distinct (map fst dc)" and q: "q \<notin> fst ` set dc"
    by (auto simp: a)
  have keys: "fst ` set ts' \<subseteq> fst ` set dc"
    using located_tokens_entries [OF ts'] by force
  show ?case
  proof (cases "p = q")
    case True
    with Cons.prems(1,3) have "vals = qvals" by (auto simp: a rev_image_eqI)
    moreover have "map_of ts' q = None" using keys q by (auto simp: map_of_eq_None_iff)
    ultimately show ?thesis using hit ts True by (cases hit) auto
  next
    case False
    with Cons.prems(3) have "(p, vals) \<in> set dc" by (simp add: a)
    from Cons.IH [OF d ts' this] False ts show ?thesis by (cases hit) auto
  qed
qed

text \<open>
  X1. When the locator returns, the entry of each parameter is right: a parameter has no
  entry exactly when the classifier rejected all its values, and otherwise its entry
  holds one pair, the index and the value of the first value the classifier accepted,
  every earlier value having been rejected.
\<close>

theorem locator_first_match:
  assumes "distinct (map fst (fr_dc freq))"
    and "fst (find_csrf_token freq w) = Inr tokens"
    and "(p, vals) \<in> set (fr_dc freq)"
  shows "case map_of tokens p of
           None \<Rightarrow> (\<forall>v \<in> set vals. is_csrf_token p v = Inr False)
         | Some d \<Rightarrow>
             (\<exists>i < length vals. d = [(i, vals ! i)]
                \<and> is_csrf_token p (vals ! i) = Inr True
                \<and> (\<forall>j < i. is_csrf_token p (vals ! j) = Inr False))"
proof -
  from assms(1,2) have l: "located_tokens (fr_dc freq) = Inr tokens"
    by (simp add: find_csrf_token_located)
  from located_tokens_lookup [OF assms(1) l assms(3)] obtain hit where
    hit: "first_accepted p (enumerate 0 vals) = Inr hit"
    and m: "map_of tokens p = map_option (\<lambda>iv. [iv]) hit" by blast
  show ?thesis
  proof (cases hit)
    case None
    with hit m first_accepted_none [of p 0 vals] show ?thesis by simp
  next
    case (Some iv)
    obtain i v where iv: "iv = (i, v)" by (cases iv)
    from first_accepted_sound [of p 0 vals i v] hit Some iv
    have "i < length vals" "vals ! i = v" "is_csrf_token p v = Inr True"
      "\<forall>j < i. is_csrf_token p (vals ! j) = Inr False" by auto
    with m Some iv show ?thesis by auto
  qed
qed

lemma located_tokens_returns:
  assumes "\<forall>(p, vals) \<in> set dc. \<forall>v \<in> set vals. \<exists>b. is_csrf_token p v = Inr b"
  shows "\<exists>ts. located_tokens dc = Inr ts"
  using assms
proof (induction dc)
  case Nil
  show ?case by simp
next
  case (Cons a dc)
  obtain q qvals where a: "a = (q, qvals)" by (cases a)
  from Cons.prems have "\<forall>v \<in> set qvals. \<exists>b. is_csrf_token q v = Inr b" by (auto simp: a)
  from first_accepted_returns [OF this, of 0] obtain h where
    "first_accepted q (enumerate 0 qvals) = Inr h" by blast
  moreover from Cons obtain ts where "located_tokens dc = Inr ts" by auto
  ultimately show ?case by (simp add: a)
qed

text \<open>
  X2. When the classifier returns normally on every value of the request, the locator
  returns, and its map is empty exactly when the classifier rejects every value.
\<close>

theorem locator_returns:
  assumes "distinct (map fst (fr_dc freq))"
    and "\<forall>(p, vals) \<in> set (fr_dc freq). \<forall>v \<in> set vals. \<exists>b. is_csrf_token p v = Inr b"
  shows "\<exists>tokens. fst (find_csrf_token freq w) = Inr tokens
           \<and> (tokens = [] \<longleftrightarrow>
                (\<forall>(p, vals) \<in> set (fr_dc freq). \<forall>v \<in> set vals.
                    is_csrf_token p v = Inr False))"
proof -
  from located_tokens_returns [OF assms(2)] obtain ts where
    l: "located_tokens (fr_dc freq) = Inr ts" by blast
  then have f: "fst (find_csrf_token freq w) = Inr ts"
    using assms(1) by (simp add: find_csrf_token_located)
  have "ts = [] \<longleftrightarrow>
          (\<forall>(p, vals) \<in> set (fr_dc freq). \<forall>v \<in> set vals. is_csrf_token p v = Inr False)"
  proof
    assume e: "ts = []"
    show "\<forall>(p, vals) \<in> set (fr_dc freq). \<forall>v \<in> set vals. is_csrf_token p v = Inr False"
    proof (clarify)
      fix p vals v assume pv: "(p, vals) \<in> set (fr_dc freq)" and v: "v \<in> set vals"
      from located_tokens_lookup [OF assms(1) l pv] e obtain hit where
        "first_accepted p (enumerate 0 vals) = Inr hit" "hit = None" by auto
      with first_accepted_none [of p 0 vals] v show "is_csrf_token p v = Inr False" by auto
    qed
  next
    assume none: "\<forall>(p, vals) \<in> set (fr_dc freq). \<forall>v \<in> set vals.
                     is_csrf_token p v = Inr False"
    show "ts = []"
    proof (rule ccontr)
      assume "ts \<noteq> []"
      then obtain p d where "(p, d) \<in> set ts" by (cases ts) auto
      from located_tokens_entries [OF l this] obtain vals i v where
        e: "(p, vals) \<in> set (fr_dc freq)"
           "first_accepted p (enumerate 0 vals) = Inr (Some (i, v))" by blast
      from first_accepted_sound [OF e(2)] have "i < length vals" "vals ! i = v"
        "is_csrf_token p v = Inr True" by auto
      moreover then have "v \<in> set vals" by auto
      ultimately show False using none e(1) by auto
    qed
  qed
  with f show ?thesis by blast
qed

lemma eval_mixed: "is_csrf_token ''q'' ''abcdefghij12'' = Inr True"
  by (simp add: is_csrf_token_code COMMON_CSRF_NAMES_def alphabet_def isdigit_def
      islower_def isupper_def)

lemma eval_short: "is_csrf_token ''q'' ''ab'' = Inr False"
  by (simp add: is_csrf_token_code COMMON_CSRF_NAMES_def)

theorem locator_first_match_witness:
  "fst (find_csrf_token
          (example_request\<lparr>fr_dc := [(''q'', [''ab'', ''abcdefghij12'', ''----''])]\<rparr>)
          empty_world) = Inr [(''q'', [(1, ''abcdefghij12'')])]
   \<and> is_csrf_token ''q'' ''ab'' = Inr False
   \<and> is_csrf_token ''q'' ''abcdefghij12'' = Inr True"
proof -
  let ?freq = "example_request\<lparr>fr_dc := [(''q'', [''ab'', ''abcdefghij12'', ''----''])]\<rparr>"
  have dist: "distinct (map fst (fr_dc ?freq))" by simp
  have loc: "fst (find_csrf_token ?freq empty_world) = Inr [(''q'', [(1, ''abcdefghij12'')])]"
    by (simp add: find_csrf_token_located eval_mixed eval_short)
  have mem: "(''q'', [''ab'', ''abcdefghij12'', ''----'']) \<in> set (fr_dc ?freq)" by simp
  from locator_first_match [OF dist loc mem]
  obtain i where i: "i < 3" "(1::nat) = i"
    "is_csrf_token ''q'' ([''ab'', ''abcdefghij12'', ''----''] ! i) = Inr True"
    "\<forall>j < i. is_csrf_token ''q'' ([''ab'', ''abcdefghij12'', ''----''] ! j) = Inr False"
    by auto
  from i(2) i(4) have "is_csrf_token ''q'' ([''ab'', ''abcdefghij12'', ''----''] ! 0) = Inr False"
    by blast
  with i loc show ?thesis by auto
qed

theorem locator_returns_witness:
  "\<exists>tokens. fst (find_csrf_token example_request empty_world) = Inr tokens \<and> tokens \<noteq> []"
proof -
  have dist: "distinct (map fst (fr_dc example_request))"
    by (simp add: example_request_def)
  have ok: "\<forall>(p, vals) \<in> set (fr_dc example_request). \<forall>v \<in> set vals.
              \<exists>b. is_csrf_token p v = Inr b"
    by (auto simp: example_request_def is_csrf_token_code COMMON_CSRF_NAMES_def)
  have acc: "is_csrf_token ''token'' ''abc12345XYZ'' = Inr True"
    by (simp add: is_csrf_token_code COMMON_CSRF_NAMES_def)
  from locator_returns [OF dist ok, of empty_world] obtain tokens where
    t: "fst (find_csrf_token example_request empty_world) = Inr tokens"
    and e: "tokens = [] \<longleftrightarrow>
              (\<forall>(p, vals) \<in> set (fr_dc example_request). \<forall>v \<in> set vals.
                  is_csrf_token p v = Inr False)" by blast
  from e acc have "tokens \<noteq> []" by (auto simp: example_request_def)
  with t show ?thesis by blast
qed

text \<open>
  X3. Two responses with different status codes are never equal under the comparator,
  whatever their bodies and the limit.
\<close>

theorem different_status_never_equal:
  assumes "r_code res1 \<noteq> r_code res2"
  shows "\<not> is_resp_equal self res1 res2"
  using assms by (simp add: is_resp_equal_def)

theorem different_status_never_equal_witness:
  "\<not> is_resp_equal (example_plugin ignoring_server) example_response
       (example_response\<lparr>r_code := 403\<rparr>)"
  using different_status_never_equal
    [of example_response "example_response\<lparr>r_code := 403\<rparr>" "example_plugin ignoring_server"]
  by (simp add: example_response_def)

text \<open>
  X4. A request without query string and with an empty data container is not suitable,
  whatever the cookies.
\<close>

theorem no_payload_unsuitable:
  assumes "\<not> fr_has_query_string freq" and "fr_dc freq = []"
  shows "fst (is_suitable self freq w) = Inr False"
  using assms by (simp add: is_suitable_run)

theorem no_payload_unsuitable_witness:
  "fst (is_suitable (example_plugin ignoring_server)
          (example_request\<lparr>fr_method := ''GET'', fr_has_query_string := False, fr_dc := []\<rparr>)
          empty_world) = Inr False"
  using no_payload_unsuitable
    [of "example_request\<lparr>fr_method := ''GET'', fr_has_query_string := False, fr_dc := []\<rparr>"
        "example_plugin ignoring_server" empty_world]
  by simp

text \<open>
  X5. Under a name outside the well-known names, a value shorter than four characters is
  not a token.
\<close>

theorem short_value_is_no_token:
  assumes "key \<notin> set COMMON_CSRF_NAMES" and "length value < 4"
  shows "is_csrf_token key value = Inr False"
  using assms by (simp add: is_csrf_token_def)

theorem short_value_is_no_token_witness:
  "is_csrf_token ''foo'' ''ab1'' = Inr False"
  using short_value_is_no_token [of "''foo''" "''ab1''"]
  by (simp add: COMMON_CSRF_NAMES_def)

text \<open>
  X6. Under a name outside the well-known names, a value without a digit is never
  accepted as a token.
\<close>

theorem no_digit_is_no_token:
  assumes "key \<notin> set COMMON_CSRF_NAMES" and "\<forall>c \<in> set value. \<not> isdigit c"
  shows "is_csrf_token key value \<noteq> Inr True"
  using assms
  by (simp add: is_csrf_token_code Let_def scan_chars_digit)

theorem no_digit_is_no_token_witness:
  "is_csrf_token ''foo'' ''abcdefghijklmnopqrst'' \<noteq> Inr True"
  using no_digit_is_no_token [of "''foo''" "''abcdefghijklmnopqrst''"]
  by (simp add: COMMON_CSRF_NAMES_def isdigit_def)

text \<open>
  X8. A suitable request whose Referer probe is answered like the original, with tokens
  found and every token probe answered, at least one of them by a response that differs
  from the original: \<open>audit\<close> returns and hands nothing to the knowledge base.
\<close>

theorem audit_token_checked:
  assumes suit: "fst (is_suitable self freq w) = Inr True"
    and ref: "send_mutant self
               (HeadersMutant freq ''Referer'' (fr_referer freq) ''http://www.w3af.org/'') None
              = Inr r"
    and same: "is_resp_equal self orig r"
    and loc: "fst (find_csrf_token freq w) = Inr tokens"
    and ne: "tokens \<noteq> []"
    and answered: "\<forall>m \<in> set (create_mutants self freq [''123''] False (map fst tokens)).
                     \<exists>r'. send_mutant self m (Some False) = Inr r'"
    and differs: "\<exists>m \<in> set (create_mutants self freq [''123''] False (map fst tokens)).
                    \<exists>r'. send_mutant self m (Some False) = Inr r'
                         \<and> \<not> is_resp_equal self orig r'"
  shows "fst (audit self freq orig w) = Inr ()
       \<and> w_kb (snd (audit self freq orig w)) = w_kb w"
proof -
  have s: "\<And>wa. fst (is_suitable self freq wa) = Inr True"
    using suit is_suitable_fst by metis
  have o: "\<And>wa. fst (is_origin_checked self freq orig wa) = Inr False"
    using ref same by (simp add: is_origin_checked_fst)
  have f: "\<And>wa. fst (find_csrf_token freq wa) = Inr tokens"
    using loc find_csrf_token_fst by metis
  have t: "\<And>wa. fst (is_token_checked self freq tokens orig wa) = Inr True"
    using differs
    by (simp add: is_token_checked_fst [of self freq tokens orig _ w]
        send_all_answered [OF answered])
  show ?thesis
    using find_csrf_token_frame ne
    by (simp add: audit_def enter_def s andthen_def case_prod_unfold o f t ret_def debug_def
        is_suitable_kb is_origin_checked_kb is_token_checked_kb)
qed

theorem audit_token_checked_witness:
  "fst (audit (example_plugin token_checking_server) example_request example_response
          empty_world) = Inr ()
   \<and> w_kb (snd (audit (example_plugin token_checking_server) example_request
                   example_response empty_world)) = []"
proof -
  let ?self = "example_plugin token_checking_server"
  have ref: "send_mutant ?self (HeadersMutant example_request ''Referer''
               (fr_referer example_request) ''http://www.w3af.org/'') None = Inr example_response"
    by (simp add: example_plugin_def init_def token_checking_server_def)
  have same: "is_resp_equal ?self example_response example_response"
    by (simp add: is_resp_equal_def example_plugin_def init_def)
  have ms: "create_mutants ?self example_request [''123''] False
              (map fst [(''token'', [(0::nat, ''abc12345XYZ'')])]) =
            [Mutant (set_value example_request ''token'' 0 ''123'')]"
    using example_mutants by (simp add: example_plugin_def init_def)
  have ne: "[(''token'', [(0::nat, ''abc12345XYZ'')])] \<noteq> []" by simp
  have answered: "\<forall>m \<in> set (create_mutants ?self example_request [''123''] False
                     (map fst [(''token'', [(0::nat, ''abc12345XYZ'')])])).
                     \<exists>r'. send_mutant ?self m (Some False) = Inr r'"
    unfolding ms by (simp add: example_plugin_def init_def token_checking_server_def)
  have differs: "\<exists>m \<in> set (create_mutants ?self example_request [''123''] False
                     (map fst [(''token'', [(0::nat, ''abc12345XYZ'')])])).
                    \<exists>r'. send_mutant ?self m (Some False) = Inr r'
                         \<and> \<not> is_resp_equal ?self example_response r'"
    unfolding ms
    by (simp add: example_plugin_def init_def token_checking_server_def is_resp_equal_def
        example_response_def forbidden_response_def)
  from audit_token_checked [where w = empty_world,
      OF example_suitable ref same example_tokens ne answered differs]
  show ?thesis by (simp add: empty_world_def)
qed

text \<open>
  X9. For a request that is not suitable, \<open>audit\<close> returns at once: nothing is sent and
  nothing is handed to the knowledge base.
\<close>

theorem audit_unsuitable:
  assumes "fst (is_suitable self freq w) = Inr False"
  shows "fst (audit self freq orig w) = Inr ()
       \<and> w_kb (snd (audit self freq orig w)) = w_kb w
       \<and> w_sent (snd (audit self freq orig w)) = w_sent w"
proof -
  have c: "\<not> (cookie_loop (fr_domain freq) (get_cookies self)
         \<and> \<not> (fr_method freq = ''GET'' \<and> strict_mode self)
         \<and> \<not> (\<not> fr_has_query_string freq \<and> fr_dc freq = []))"
    using assms by (simp add: is_suitable_run split: if_splits)
  have s: "is_suitable self freq wa = (Inr False, wa\<lparr>w_calls := w_calls wa @ [''_is_suitable'']\<rparr>)"
    for wa
    using c by (subst is_suitable_run) (simp only: if_False)
  show ?thesis
    by (simp add: audit_def andthen_def enter_def s ret_def)
qed

theorem audit_unsuitable_witness:
  "fst (audit (example_plugin ignoring_server)
          (example_request\<lparr>fr_domain := ''www.example.com''\<rparr>) example_response empty_world)
     = Inr ()
   \<and> w_kb (snd (audit (example_plugin ignoring_server)
                   (example_request\<lparr>fr_domain := ''www.example.com''\<rparr>) example_response
                   empty_world)) = []
   \<and> w_sent (snd (audit (example_plugin ignoring_server)
                   (example_request\<lparr>fr_domain := ''www.example.com''\<rparr>) example_response
                   empty_world)) = []"
proof -
  have u: "fst (is_suitable (example_plugin ignoring_server)
          (example_request\<lparr>fr_domain := ''www.example.com''\<rparr>) empty_world) = Inr False"
    by (simp add: is_suitable_run example_plugin_def init_def example_request_def sublist_code)
  from audit_unsuitable [OF u, of example_response]
  show ?thesis by (simp add: empty_world_def)
qed

text \<open>
  X7. Under a name outside the well-known names, a value of at least seven characters,
  all of them digits or letters, with at least one digit and at least one letter, is a
  token: the alphabet is at least 36 and \<open>36 ^ 7\<close> exceeds \<open>2 ^ 36\<close>.
\<close>

theorem alphanumeric_token:
  assumes "key \<notin> set COMMON_CSRF_NAMES" and "7 \<le> length value"
    and alnum: "\<forall>c \<in> set value. isdigit c \<or> islower c \<or> isupper c"
    and digit: "\<exists>c \<in> set value. isdigit c"
    and letter: "\<exists>c \<in> set value. \<not> isdigit c"
  shows "is_csrf_token key value = Inr True"
proof -
  define f where "f = scan_chars value \<lparr>total_digit = False, total_lower = False,
                   total_upper = False, total_spaces = False\<rparr>"
  have d: "total_digit f" using digit by (simp add: f_def scan_chars_digit)
  have s: "\<not> total_spaces f"
    using alnum space_is_no_letter by (auto simp: f_def scan_chars_spaces)
  have lu: "total_lower f \<or> total_upper f"
    using letter alnum by (auto simp: f_def scan_chars_lower scan_chars_upper)
  from d lu have a: "36 \<le> alphabet f" by (auto simp: alphabet_def)
  have "(2::nat) ^ 36 \<le> 36 ^ 7" by simp
  also have "\<dots> \<le> 36 ^ length value" using assms(2) by (intro power_increasing) simp_all
  also have "\<dots> \<le> alphabet f ^ length value" using a by (rule power_mono) simp
  finally have p: "(2::nat) ^ 36 \<le> alphabet f ^ length value" .
  from a have nz: "alphabet f \<noteq> 0" by simp
  have "is_csrf_token key value = Inr ((2::nat) ^ 36 \<le> alphabet f ^ length value)"
    using nz d s assms(1,2)
    by (simp add: is_csrf_token_code f_def [symmetric] Let_def del: power_numeral)
  with p show ?thesis by (simp only: )
qed

theorem alphanumeric_token_witness:
  "is_csrf_token ''foo'' ''aB3xQ9mK2pL7vN4sT1wZ6'' = Inr True"
  using alphanumeric_token [of "''foo''" "''aB3xQ9mK2pL7vN4sT1wZ6''"]
  by (simp add: COMMON_CSRF_NAMES_def isdigit_def islower_def isupper_def)

end
